theory Spec2Isabelle
  imports
    Complex_Main
    "HOL-Library.AList"
    "HOL-Library.Char_ord"
    "HOL-Library.List_Lexorder"
    "HOL-Library.Signed_Division"
begin

section \<open>Pirate Quest: the visit tracking state of app.js\<close>

text \<open>
  The development embeds the state-carrying part of \<^verbatim>\<open>src/app.js\<close>: the module
  variables \<^verbatim>\<open>pools\<close>, \<^verbatim>\<open>visited\<close>, \<^verbatim>\<open>selectedIndex\<close> and
  \<^verbatim>\<open>currentStampsPage\<close>, the helper \<^verbatim>\<open>dateKey\<close>, the functions
  \<^verbatim>\<open>toggleStamp\<close>, \<^verbatim>\<open>renderList\<close>, \<^verbatim>\<open>renderStamps\<close>, and the click handlers that
  \<^verbatim>\<open>init\<close> registers. JavaScript numbers that hold indices and counts are modelled as
  \<^typ>\<open>int\<close>; strings as \<^typ>\<open>string\<close>. Map widget, overlays and markup are outside
  the model.
\<close>

subsection \<open>Data\<close>

text \<open>
  A catalog entry. Of the fields of a pool only \<^verbatim>\<open>id\<close> and \<^verbatim>\<open>name\<close> are kept; the
  coordinates, stamp image and suburb are read by the presentation code alone.
\<close>

record pool =
  pool_id :: string
  pool_name :: string

text \<open>
  A visit record \<^verbatim>\<open>{ done: true, date: "16/12/2025" }\<close>. (The field \<^verbatim>\<open>done\<close> is
  named \<open>done_flag\<close> here.)
\<close>

record visit_record =
  done_flag :: bool
  date :: string

text \<open>
  The object \<^verbatim>\<open>visited\<close>, keyed by pool id, as an association list with one entry per
  key: \<^verbatim>\<open>visited[k]\<close> is \<^term>\<open>map_of l k\<close> and \<^verbatim>\<open>visited[k] = r\<close> is
  \<^term>\<open>AList.update k r l\<close>. No modelled operation observes the order of the entries.
\<close>

type_synonym ledger = "(string \<times> visit_record) list"

text \<open>The three slots of the device store; \<open>None\<close> is an absent or unreadable slot.\<close>

record store =
  slot_visited :: "ledger option"
  slot_selection :: "int option"
  slot_page :: "int option"

text \<open>
  The module state. \<open>passportGrid\<close> is the element with that id: \<open>None\<close> when the
  document has no such element, otherwise the pools whose cards it currently shows, in order.
\<close>

record app_state =
  pools :: "pool list"
  visited :: ledger
  selectedIndex :: int
  currentStampsPage :: int
  storage :: store
  passportGrid :: "pool list option"

text \<open>How a handler ended: it returned, or an uncaught TypeError ended it early.\<close>

datatype outcome = Returned | Threw

subsection \<open>storage.js\<close>

text \<open>
  \<^verbatim>\<open>app.js\<close> imports seven functions from \<^verbatim>\<open>storage.js\<close>, which is not among the
  sources. They are modelled from sections 4.1, 4.5 and 6 of the specification. A failing
  write of the device store is not modelled.
\<close>

text \<open>
  Modelled from the spec: \<^verbatim>\<open>readVisited\<close> of the missing \<^verbatim>\<open>storage.js\<close> returns the
  stored ledger, or the empty ledger when the slot is absent or corrupt.
\<close>

definition readVisited :: "store \<Rightarrow> ledger" where
  "readVisited s = (case slot_visited s of None \<Rightarrow> [] | Some l \<Rightarrow> l)"

text \<open>
  Modelled from the spec: \<^verbatim>\<open>readSelection\<close> of the missing \<^verbatim>\<open>storage.js\<close> returns the
  stored selection index, or 0 when the slot is absent or corrupt.
\<close>

definition readSelection :: "store \<Rightarrow> int" where
  "readSelection s = (case slot_selection s of None \<Rightarrow> 0 | Some i \<Rightarrow> i)"

text \<open>
  Modelled from the spec: \<^verbatim>\<open>readStampsPage\<close> of the missing \<^verbatim>\<open>storage.js\<close> returns
  the stored page index, or 0 when the slot is absent or corrupt.
\<close>

definition readStampsPage :: "store \<Rightarrow> int" where
  "readStampsPage s = (case slot_page s of None \<Rightarrow> 0 | Some i \<Rightarrow> i)"

text \<open>
  Modelled from the spec: \<^verbatim>\<open>writeVisited\<close> of the missing \<^verbatim>\<open>storage.js\<close> stores the
  ledger in its slot.
\<close>

definition writeVisited :: "ledger \<Rightarrow> app_state \<Rightarrow> app_state" where
  "writeVisited l st = st\<lparr>storage := (storage st)\<lparr>slot_visited := Some l\<rparr>\<rparr>"

text \<open>
  Modelled from the spec: \<^verbatim>\<open>writeSelection\<close> of the missing \<^verbatim>\<open>storage.js\<close> stores
  the selection index in its slot.
\<close>

definition writeSelection :: "int \<Rightarrow> app_state \<Rightarrow> app_state" where
  "writeSelection i st = st\<lparr>storage := (storage st)\<lparr>slot_selection := Some i\<rparr>\<rparr>"

text \<open>
  Modelled from the spec: \<^verbatim>\<open>writeStampsPage\<close> of the missing \<^verbatim>\<open>storage.js\<close> stores
  the page index in its slot.
\<close>

definition writeStampsPage :: "int \<Rightarrow> app_state \<Rightarrow> app_state" where
  "writeStampsPage i st = st\<lparr>storage := (storage st)\<lparr>slot_page := Some i\<rparr>\<rparr>"

text \<open>
  Modelled from the spec: \<^verbatim>\<open>countVisited\<close> of the missing \<^verbatim>\<open>storage.js\<close> is
  \<^verbatim>\<open>count()\<close> of section 4.1, the number of records with \<^verbatim>\<open>done == true\<close>.
\<close>

definition countVisited :: "ledger \<Rightarrow> nat" where
  "countVisited l = length (filter (\<lambda>kv. done_flag (snd kv)) l)"

subsection \<open>Date helpers\<close>

text \<open>
  The two regular expressions of \<^verbatim>\<open>dateKey\<close> are anchored sequences of \<^verbatim>\<open>\d\<close> and
  literal characters, so a pattern is a list of such items and matching consumes the whole
  string. \<^verbatim>\<open>\d\<close> is an ASCII digit.
\<close>

datatype pat = Digit | Lit char

definition is_digit :: "char \<Rightarrow> bool" where
  "is_digit c = (CHR ''0'' \<le> c \<and> c \<le> CHR ''9'')"

fun matches :: "pat list \<Rightarrow> string \<Rightarrow> bool" where
  "matches [] [] = True"
| "matches [] (c # cs) = False"
| "matches (p # ps) [] = False"
| "matches (Digit # ps) (c # cs) = (is_digit c \<and> matches ps cs)"
| "matches (Lit l # ps) (c # cs) = (c = l \<and> matches ps cs)"

text \<open>\<^verbatim>\<open>/^\d{4}-\d{2}-\d{2}$/\<close> and \<^verbatim>\<open>/^\d{2}\/\d{2}\/\d{4}$/\<close>.\<close>

definition iso_pattern :: "pat list" where
  "iso_pattern = [Digit, Digit, Digit, Digit, Lit (CHR ''-''), Digit, Digit,
                  Lit (CHR ''-''), Digit, Digit]"

definition au_pattern :: "pat list" where
  "au_pattern = [Digit, Digit, Lit (CHR ''/''), Digit, Digit, Lit (CHR ''/''),
                 Digit, Digit, Digit, Digit]"

text \<open>\<^verbatim>\<open>d.split(sep)\<close> for a separator of one character.\<close>

fun split_on :: "char \<Rightarrow> string \<Rightarrow> string list" where
  "split_on s [] = [[]]"
| "split_on s (c # cs) =
     (if c = s then [] # split_on s cs
      else (case split_on s cs of [] \<Rightarrow> [[c]] | w # ws \<Rightarrow> (c # w) # ws))"

text \<open>
  An element bound by array destructuring and printed in a template string: a missing
  element is \<^verbatim>\<open>undefined\<close> and prints as that word.
\<close>

definition part :: "string list \<Rightarrow> nat \<Rightarrow> string" where
  "part ps i = (if i < length ps then ps ! i else ''undefined'')"

definition dateKey :: "string \<Rightarrow> string" where
  "dateKey d =
     (if d = [] then []
      else if matches iso_pattern d then filter (\<lambda>c. c \<noteq> CHR ''-'') d
      else if matches au_pattern d then
        (let ps = split_on (CHR ''/'') d;
             day = part ps 0; month = part ps 1; year = part ps 2
         in year @ month @ day)
      else filter is_digit d)"

subsection \<open>Lookups in the ledger\<close>

text \<open>\<^verbatim>\<open>visited[id]?.done\<close>, as \<^verbatim>\<open>createDetailIcon\<close> names it.\<close>

definition isVisited :: "ledger \<Rightarrow> string \<Rightarrow> bool" where
  "isVisited l k = (case map_of l k of None \<Rightarrow> False | Some r \<Rightarrow> done_flag r)"

text \<open>
  \<^verbatim>\<open>visited[id].date\<close>, read by the sort comparator for the pools that passed the
  filter, so the record is there; \<^verbatim>\<open>dateKey\<close> maps a missing date to the empty key
  as it does the empty string.
\<close>

definition date_of :: "ledger \<Rightarrow> string \<Rightarrow> string" where
  "date_of l k = (case map_of l k of None \<Rightarrow> [] | Some r \<Rightarrow> date r)"

subsection \<open>The stamps view\<close>

text \<open>
  \<^verbatim>\<open>xs.slice(s, e)\<close> on integers: a negative bound counts from the end, and both are
  cut to the range of the array.
\<close>

definition js_slice :: "'a list \<Rightarrow> int \<Rightarrow> int \<Rightarrow> 'a list" where
  "js_slice xs s e =
     (let n = int (length xs);
          k = (if s < 0 then max (n + s) 0 else min s n);
          f = (if e < 0 then max (n + e) 0 else min e n)
      in take (nat (f - k)) (drop (nat k) xs))"

definition stampsPerPage :: int where
  "stampsPerPage = 2"

text \<open>
  \<^verbatim>\<open>pools.filter(p => visited[p.id]?.done).sort((a, b) => dateKey(..).localeCompare(..))\<close>.
  The keys are digit strings, on which \<^verbatim>\<open>localeCompare\<close> is the lexicographic order
  of the characters; the sort is stable.
\<close>

definition visitedPools :: "app_state \<Rightarrow> pool list" where
  "visitedPools st =
     sort_key (\<lambda>p. dateKey (date_of (visited st) (pool_id p)))
       (filter (\<lambda>p. isVisited (visited st) (pool_id p)) (pools st))"

text \<open>
  \<^verbatim>\<open>Math.max(1, Math.ceil(visitedPools.length / stampsPerPage))\<close>; the quotient of two
  small integers is exact in floating point, so it is the real quotient.
\<close>

definition totalPages :: "nat \<Rightarrow> int" where
  "totalPages n = max 1 \<lceil>real n / real_of_int stampsPerPage\<rceil>"

definition renderStamps :: "app_state \<Rightarrow> app_state" where
  "renderStamps st =
     (case passportGrid st of
        None \<Rightarrow> st
      | Some old \<Rightarrow>
          (let vs = visitedPools st;
               page = min (currentStampsPage st) (totalPages (length vs) - 1);
               st1 = writeStampsPage page (st\<lparr>currentStampsPage := page\<rparr>);
               pagePools = js_slice vs (page * stampsPerPage)
                             (page * stampsPerPage + stampsPerPage)
           in st1\<lparr>passportGrid := Some pagePools\<rparr>))"

subsection \<open>The list view\<close>

text \<open>
  \<^verbatim>\<open>renderList\<close> writes markup only. With a non-empty catalog it reads
  \<^verbatim>\<open>pools[selectedIndex].id\<close>, which throws when the index is outside the catalog.
\<close>

definition renderList :: "app_state \<Rightarrow> outcome" where
  "renderList st =
     (if pools st = [] then Returned
      else if 0 \<le> selectedIndex st \<and> selectedIndex st < int (length (pools st))
      then Returned else Threw)"

subsection \<open>Claiming a stamp\<close>


text \<open>
  \<^verbatim>\<open>toggleStamp(poolId)\<close>; \<open>today\<close> is the string the date formatter returns at the
  call. The marker update and the overlays leave the state alone.
\<close>

definition toggleStamp :: "string \<Rightarrow> string \<Rightarrow> app_state \<Rightarrow> outcome \<times> app_state" where
  "toggleStamp poolId today st =
     (if poolId = [] then (Returned, st)
      else if isVisited (visited st) poolId then (Returned, st)
      else (case find (\<lambda>x. pool_id x = poolId) (pools st) of
              None \<Rightarrow> (Returned, st)
            | Some p \<Rightarrow>
                (let l = AList.update poolId \<lparr>done_flag = True, date = today\<rparr> (visited st);
                     st1 = writeVisited l (st\<lparr>visited := l\<rparr>)
                 in (case renderList st1 of
                       Threw \<Rightarrow> (Threw, st1)
                     | Returned \<Rightarrow> (Returned, renderStamps st1)))))"

subsection \<open>Start-up and the click handlers\<close>

text \<open>The module-level initialisers, for a device store and a document.\<close>

definition initial_state :: "store \<Rightarrow> pool list option \<Rightarrow> app_state" where
  "initial_state s g =
     \<lparr>pools = [], visited = readVisited s, selectedIndex = readSelection s,
      currentStampsPage = readStampsPage s, storage = s, passportGrid = g\<rparr>"

text \<open>
  \<^verbatim>\<open>init\<close>, for the catalog that \<^verbatim>\<open>loadPools\<close> delivered: the two statements that
  keep the selection in bounds. The first render that follows shows the list view.
\<close>

definition init :: "pool list \<Rightarrow> app_state \<Rightarrow> app_state" where
  "init loaded st =
     (let n = int (length loaded);
          i1 = (if selectedIndex st < 0 then 0 else selectedIndex st);
          i2 = (if i1 \<ge> n then max 0 (n - 1) else i1)
      in st\<lparr>pools := loaded, selectedIndex := i2\<rparr>)"

text \<open>
  The reset button; \<open>ok\<close> is the answer of the confirmation dialog.
\<close>

definition resetBtn_click :: "bool \<Rightarrow> app_state \<Rightarrow> outcome \<times> app_state" where
  "resetBtn_click ok st =
     (if \<not> ok then (Returned, st)
      else (let st1 = writeVisited [] (st\<lparr>visited := []\<rparr>);
                st2 = writeStampsPage 0 (st1\<lparr>currentStampsPage := 0\<rparr>)
            in (case renderList st2 of
                  Threw \<Rightarrow> (Threw, st2)
                | Returned \<Rightarrow> (Returned, renderStamps st2))))"

text \<open>
  \<^verbatim>\<open>btnUp\<close> and \<^verbatim>\<open>btnDown\<close>. The operator \<^verbatim>\<open>%\<close> takes the sign of the dividend,
  which is \<^term>\<open>(smod)\<close> on integers.
\<close>

definition btnUp_click :: "app_state \<Rightarrow> outcome \<times> app_state" where
  "btnUp_click st =
     (if pools st = [] then (Returned, st)
      else (let i = (selectedIndex st + 1) smod int (length (pools st));
                st1 = writeSelection i (st\<lparr>selectedIndex := i\<rparr>)
            in (renderList st1, st1)))"

definition btnDown_click :: "app_state \<Rightarrow> outcome \<times> app_state" where
  "btnDown_click st =
     (if pools st = [] then (Returned, st)
      else (let i = (selectedIndex st - 1 + int (length (pools st)))
                      smod int (length (pools st));
                st1 = writeSelection i (st\<lparr>selectedIndex := i\<rparr>)
            in (renderList st1, st1)))"

definition prevStampsPageBtn_click :: "app_state \<Rightarrow> app_state" where
  "prevStampsPageBtn_click st =
     (let p = max 0 (currentStampsPage st - 1)
      in renderStamps (writeStampsPage p (st\<lparr>currentStampsPage := p\<rparr>)))"

definition nextStampsPageBtn_click :: "app_state \<Rightarrow> app_state" where
  "nextStampsPageBtn_click st =
     (let p = currentStampsPage st + 1
      in renderStamps (writeStampsPage p (st\<lparr>currentStampsPage := p\<rparr>)))"

text \<open>
  \<^verbatim>\<open>setView(showStamps)\<close> renders the stamps when it switches to them; the flag
  \<^verbatim>\<open>onStampsView\<close> only selects the markup.
\<close>

definition setView :: "bool \<Rightarrow> app_state \<Rightarrow> app_state" where
  "setView showStamps st = (if showStamps then renderStamps st else st)"

subsection \<open>Sessions\<close>

text \<open>The user's actions after start-up, and the state a sequence of them leaves.\<close>

datatype event =
    Claim string string
  | Reset bool
  | Up
  | Down
  | PrevPage
  | NextPage
  | View bool

fun step :: "app_state \<Rightarrow> event \<Rightarrow> app_state" where
  "step st (Claim k today) = snd (toggleStamp k today st)"
| "step st (Reset ok) = snd (resetBtn_click ok st)"
| "step st Up = snd (btnUp_click st)"
| "step st Down = snd (btnDown_click st)"
| "step st PrevPage = prevStampsPageBtn_click st"
| "step st NextPage = nextStampsPageBtn_click st"
| "step st (View b) = setView b st"

definition run :: "app_state \<Rightarrow> event list \<Rightarrow> app_state" where
  "run st evs = foldl step st evs"

subsection \<open>Invariants of the two cursors\<close>

text \<open>The selection points at a pool of the catalog (so the catalog is not empty).\<close>

definition in_catalog :: "app_state \<Rightarrow> bool" where
  "in_catalog st = (0 \<le> selectedIndex st \<and> selectedIndex st < int (length (pools st)))"

text \<open>
  The page cursor lies in \<open>[0, totalPages - 1]\<close>, for the page count of the pools that
  are visited now.
\<close>

definition in_pages :: "app_state \<Rightarrow> bool" where
  "in_pages st =
     (0 \<le> currentStampsPage st \<and>
      currentStampsPage st \<le> totalPages (length (visitedPools st)) - 1)"


subsection \<open>The page window of the specification\<close>

text \<open>
  The window \<open>[a, b)\<close> of a sequence: its elements at the indices \<open>i\<close> with
  \<open>a \<le> i < b\<close>, in order.
\<close>

definition window :: "'a list \<Rightarrow> int \<Rightarrow> int \<Rightarrow> 'a list" where
  "window xs a b = map (nth xs) [nat (max a 0) ..< nat (min b (int (length xs)))]"

text \<open>
  \<^verbatim>\<open>visibleSlice(ledger, catalog, page, pageSize)\<close> in the words of section 4.3: the
  catalog entries with a visited record, sorted ascending by the normalized date key, cut
  to the window \<open>[page * pageSize, page * pageSize + pageSize)\<close>.
\<close>

definition visibleSlice :: "ledger \<Rightarrow> pool list \<Rightarrow> int \<Rightarrow> int \<Rightarrow> pool list" where
  "visibleSlice l catalog page pageSize =
     window
       (sort_key (\<lambda>p. dateKey (date_of l (pool_id p)))
          (filter (\<lambda>p. isVisited l (pool_id p)) catalog))
       (page * pageSize) (page * pageSize + pageSize)"

subsection \<open>Calendar dates in the two stored formats\<close>

text \<open>
  A calendar date as it is written in a stored string: the year as four digits, the month
  and the day as two digits each. \<open>Iso\<close> is the form \<^verbatim>\<open>YYYY-MM-DD\<close>, \<open>Au\<close> the form
  \<^verbatim>\<open>DD/MM/YYYY\<close>.
\<close>

datatype date_format = Iso | Au

fun show_date :: "date_format \<Rightarrow> string \<Rightarrow> string \<Rightarrow> string \<Rightarrow> string" where
  "show_date Iso y m d = y @ ''-'' @ m @ ''-'' @ d"
| "show_date Au y m d = d @ ''/'' @ m @ ''/'' @ y"

definition date_fields :: "string \<Rightarrow> string \<Rightarrow> string \<Rightarrow> bool" where
  "date_fields y m d =
     (length y = 4 \<and> length m = 2 \<and> length d = 2 \<and> list_all is_digit (y @ m @ d))"

text \<open>The number a string of digits denotes.\<close>

definition digit_val :: "char \<Rightarrow> nat" where
  "digit_val c = of_char c - 48"

fun str_val :: "string \<Rightarrow> nat" where
  "str_val [] = 0"
| "str_val (c # cs) = digit_val c * 10 ^ length cs + str_val cs"

text \<open>One date (year, month, day) lies before another.\<close>

fun earlier :: "nat \<times> nat \<times> nat \<Rightarrow> nat \<times> nat \<times> nat \<Rightarrow> bool" where
  "earlier (y1, m1, d1) (y2, m2, d2) =
     (y1 < y2 \<or> (y1 = y2 \<and> (m1 < m2 \<or> (m1 = m2 \<and> d1 < d2))))"

subsection \<open>A sample catalog\<close>

text \<open>A device with nothing stored, a catalog of three pools, and the state after start-up.\<close>

definition demo_store :: store where
  "demo_store = \<lparr>slot_visited = None, slot_selection = None, slot_page = None\<rparr>"

definition demo_catalog :: "pool list" where
  "demo_catalog =
     [\<lparr>pool_id = ''A'', pool_name = ''Alpha''\<rparr>,
      \<lparr>pool_id = ''B'', pool_name = ''Bravo''\<rparr>,
      \<lparr>pool_id = ''C'', pool_name = ''Charlie''\<rparr>]"

definition demo_state :: app_state where
  "demo_state = init demo_catalog (initial_state demo_store (Some []))"

text \<open>The states of a session that claims B, then A, then C, then turns the page.\<close>

definition demo_B :: app_state where
  "demo_B =
     \<lparr>pools = demo_catalog,
      visited = [(''B'', \<lparr>done_flag = True, date = ''02/01/2025''\<rparr>)],
      selectedIndex = 0, currentStampsPage = 0,
      storage = \<lparr>slot_visited = Some [(''B'', \<lparr>done_flag = True, date = ''02/01/2025''\<rparr>)],
                 slot_selection = None, slot_page = Some 0\<rparr>,
      passportGrid = Some [\<lparr>pool_id = ''B'', pool_name = ''Bravo''\<rparr>]\<rparr>"

definition demo_BA :: app_state where
  "demo_BA =
     \<lparr>pools = demo_catalog,
      visited = [(''B'', \<lparr>done_flag = True, date = ''02/01/2025''\<rparr>),
                 (''A'', \<lparr>done_flag = True, date = ''01/01/2025''\<rparr>)],
      selectedIndex = 0, currentStampsPage = 0,
      storage = \<lparr>slot_visited = Some [(''B'', \<lparr>done_flag = True, date = ''02/01/2025''\<rparr>),
                                       (''A'', \<lparr>done_flag = True, date = ''01/01/2025''\<rparr>)],
                 slot_selection = None, slot_page = Some 0\<rparr>,
      passportGrid = Some [\<lparr>pool_id = ''A'', pool_name = ''Alpha''\<rparr>,
                           \<lparr>pool_id = ''B'', pool_name = ''Bravo''\<rparr>]\<rparr>"

definition demo_BAC :: app_state where
  "demo_BAC =
     \<lparr>pools = demo_catalog,
      visited = [(''B'', \<lparr>done_flag = True, date = ''02/01/2025''\<rparr>),
                 (''A'', \<lparr>done_flag = True, date = ''01/01/2025''\<rparr>),
                 (''C'', \<lparr>done_flag = True, date = ''03/01/2025''\<rparr>)],
      selectedIndex = 0, currentStampsPage = 0,
      storage = \<lparr>slot_visited = Some [(''B'', \<lparr>done_flag = True, date = ''02/01/2025''\<rparr>),
                                       (''A'', \<lparr>done_flag = True, date = ''01/01/2025''\<rparr>),
                                       (''C'', \<lparr>done_flag = True, date = ''03/01/2025''\<rparr>)],
                 slot_selection = None, slot_page = Some 0\<rparr>,
      passportGrid = Some [\<lparr>pool_id = ''A'', pool_name = ''Alpha''\<rparr>,
                           \<lparr>pool_id = ''B'', pool_name = ''Bravo''\<rparr>]\<rparr>"



section \<open>Properties\<close>

subsection \<open>Basic facts\<close>

lemma write_proj [simp]:
  "pools (writeVisited l st) = pools st"
  "visited (writeVisited l st) = visited st"
  "selectedIndex (writeVisited l st) = selectedIndex st"
  "currentStampsPage (writeVisited l st) = currentStampsPage st"
  "passportGrid (writeVisited l st) = passportGrid st"
  "pools (writeSelection i st) = pools st"
  "visited (writeSelection i st) = visited st"
  "selectedIndex (writeSelection i st) = selectedIndex st"
  "currentStampsPage (writeSelection i st) = currentStampsPage st"
  "passportGrid (writeSelection i st) = passportGrid st"
  "pools (writeStampsPage i st) = pools st"
  "visited (writeStampsPage i st) = visited st"
  "selectedIndex (writeStampsPage i st) = selectedIndex st"
  "currentStampsPage (writeStampsPage i st) = currentStampsPage st"
  "passportGrid (writeStampsPage i st) = passportGrid st"
  by (simp_all add: writeVisited_def writeSelection_def writeStampsPage_def)

lemma write_storage [simp]:
  "slot_visited (storage (writeVisited l st)) = Some l"
  "slot_selection (storage (writeVisited l st)) = slot_selection (storage st)"
  "slot_page (storage (writeVisited l st)) = slot_page (storage st)"
  "slot_visited (storage (writeSelection i st)) = slot_visited (storage st)"
  "slot_selection (storage (writeSelection i st)) = Some i"
  "slot_page (storage (writeSelection i st)) = slot_page (storage st)"
  "slot_visited (storage (writeStampsPage i st)) = slot_visited (storage st)"
  "slot_selection (storage (writeStampsPage i st)) = slot_selection (storage st)"
  "slot_page (storage (writeStampsPage i st)) = Some i"
  by (simp_all add: writeVisited_def writeSelection_def writeStampsPage_def)

text \<open>Rendering the stamps touches the page cursor, its slot and the grid, nothing else.\<close>

lemma renderStamps_frame [simp]:
  "pools (renderStamps st) = pools st"
  "visited (renderStamps st) = visited st"
  "selectedIndex (renderStamps st) = selectedIndex st"
  "slot_visited (storage (renderStamps st)) = slot_visited (storage st)"
  "slot_selection (storage (renderStamps st)) = slot_selection (storage st)"
  by (simp_all add: renderStamps_def Let_def split: option.split)

text \<open>The page count in integer arithmetic.\<close>

lemma ceil_half: "\<lceil>real n / 2\<rceil> = (int n + 1) div 2"
proof -
  have "real n / 2 = real_of_int (int n) / real_of_int 2" by simp
  then have "\<lceil>real n / 2\<rceil> = - (- int n div 2)"
    by (simp only: ceiling_divide_eq_div)
  also have "\<dots> = (int n + 1) div 2" by presburger
  finally show ?thesis .
qed

lemma totalPages_div: "totalPages n = max 1 ((int n + 1) div 2)"
  by (simp add: totalPages_def stampsPerPage_def ceil_half)

text \<open>Unfolding sets for running the model on given states.\<close>

lemmas key_defs = dateKey_def iso_pattern_def au_pattern_def is_digit_def part_def

lemmas handler_defs =
  toggleStamp_def renderStamps_def renderList_def visitedPools_def isVisited_def date_of_def
  js_slice_def stampsPerPage_def totalPages_div resetBtn_click_def btnUp_click_def
  btnDown_click_def prevStampsPageBtn_click_def nextStampsPageBtn_click_def setView_def
  writeVisited_def writeSelection_def writeStampsPage_def Let_def

lemma demo_state_eq:
  "demo_state =
     \<lparr>pools = demo_catalog, visited = [], selectedIndex = 0, currentStampsPage = 0,
      storage = demo_store, passportGrid = Some []\<rparr>"
  by (simp add: demo_state_def init_def initial_state_def Let_def demo_store_def
      demo_catalog_def readVisited_def readSelection_def readStampsPage_def)

lemma demo_keys:
  "dateKey ''02/01/2025'' = ''20250102''"
  "dateKey ''01/01/2025'' = ''20250101''"
  "dateKey ''03/01/2025'' = ''20250103''"
  by (simp_all add: key_defs)

lemma step_B: "step demo_state (Claim ''B'' ''02/01/2025'') = demo_B"
  by (simp add: demo_state_eq demo_B_def demo_catalog_def demo_store_def handler_defs demo_keys)

lemma step_BA: "step demo_B (Claim ''A'' ''01/01/2025'') = demo_BA"
  by (simp add: demo_B_def demo_BA_def demo_catalog_def handler_defs demo_keys)

lemma step_BAC: "step demo_BA (Claim ''C'' ''03/01/2025'') = demo_BAC"
  by (simp add: demo_BA_def demo_BAC_def demo_catalog_def handler_defs demo_keys)

lemma demo_session:
  "run demo_state [Claim ''B'' ''02/01/2025''] = demo_B"
  "run demo_state [Claim ''B'' ''02/01/2025'', Claim ''A'' ''01/01/2025''] = demo_BA"
  "run demo_state [Claim ''B'' ''02/01/2025'', Claim ''A'' ''01/01/2025'',
     Claim ''C'' ''03/01/2025''] = demo_BAC"
  "run demo_state [Claim ''B'' ''02/01/2025'', Claim ''A'' ''01/01/2025'',
     Claim ''C'' ''03/01/2025'', NextPage] = nextStampsPageBtn_click demo_BAC"
  by (simp_all add: run_def step_B step_BA step_BAC del: step.simps(1))

subsection \<open>What a claim writes\<close>

lemma find_pool_Some:
  assumes "k \<in> set (map pool_id (pools st))"
  obtains p where "find (\<lambda>x. pool_id x = k) (pools st) = Some p"
proof -
  from assms have "find (\<lambda>x. pool_id x = k) (pools st) \<noteq> None"
    by (auto simp add: find_None_iff)
  then show ?thesis using that by blast
qed

text \<open>A call either leaves the ledger alone or stores the new record under its id.\<close>

lemma toggleStamp_visited_cases:
  "visited (snd (toggleStamp k today st)) = visited st \<or>
   (\<not> isVisited (visited st) k \<and>
    visited (snd (toggleStamp k today st)) =
      AList.update k \<lparr>done_flag = True, date = today\<rparr> (visited st))"
  by (simp add: toggleStamp_def Let_def split: option.split outcome.split)

lemma toggleStamp_claimed:
  assumes "k \<noteq> []" and "\<not> isVisited (visited st) k"
    and "k \<in> set (map pool_id (pools st))"
  shows "visited (snd (toggleStamp k today st)) =
           AList.update k \<lparr>done_flag = True, date = today\<rparr> (visited st)"
    and "slot_visited (storage (snd (toggleStamp k today st))) =
           Some (AList.update k \<lparr>done_flag = True, date = today\<rparr> (visited st))"
    and "selectedIndex (snd (toggleStamp k today st)) = selectedIndex st"
    and "pools (snd (toggleStamp k today st)) = pools st"
    and "slot_selection (storage (snd (toggleStamp k today st))) = slot_selection (storage st)"
proof -
  from assms(3) obtain p where "find (\<lambda>x. pool_id x = k) (pools st) = Some p"
    by (rule find_pool_Some)
  with assms(1,2) show
    "visited (snd (toggleStamp k today st)) =
           AList.update k \<lparr>done_flag = True, date = today\<rparr> (visited st)"
    "slot_visited (storage (snd (toggleStamp k today st))) =
           Some (AList.update k \<lparr>done_flag = True, date = today\<rparr> (visited st))"
    "selectedIndex (snd (toggleStamp k today st)) = selectedIndex st"
    "pools (snd (toggleStamp k today st)) = pools st"
    "slot_selection (storage (snd (toggleStamp k today st))) = slot_selection (storage st)"
    by (simp_all add: toggleStamp_def Let_def split: outcome.split)
qed

text \<open>
  Claim C10. A claim that goes through (the id is a non-empty string, carried by a pool of
  the catalog, and not yet visited) stores \<^verbatim>\<open>{done: true, date: today}\<close> under that id
  and changes the ledger at no other id; the selection cursor and its slot keep their
  values, and the ledger slot of the store holds the new ledger.
\<close>

theorem toggleStamp_frame:
  assumes "k \<noteq> []" and "\<not> isVisited (visited st) k"
    and "k \<in> set (map pool_id (pools st))"
  shows "map_of (visited (snd (toggleStamp k today st))) k
           = Some \<lparr>done_flag = True, date = today\<rparr> \<and>
         (\<forall>y. y \<noteq> k \<longrightarrow>
            map_of (visited (snd (toggleStamp k today st))) y = map_of (visited st) y) \<and>
         selectedIndex (snd (toggleStamp k today st)) = selectedIndex st \<and>
         slot_selection (storage (snd (toggleStamp k today st)))
           = slot_selection (storage st) \<and>
         slot_visited (storage (snd (toggleStamp k today st)))
           = Some (visited (snd (toggleStamp k today st)))"
  using toggleStamp_claimed [OF assms, of today]
  by (simp add: update_conv')

theorem toggleStamp_frame_witness:
  "map_of (visited (snd (toggleStamp ''A'' ''01/01/2025'' demo_B))) ''A''
     = Some \<lparr>done_flag = True, date = ''01/01/2025''\<rparr> \<and>
   map_of (visited (snd (toggleStamp ''A'' ''01/01/2025'' demo_B))) ''B''
     = Some \<lparr>done_flag = True, date = ''02/01/2025''\<rparr> \<and>
   map_of (visited (snd (toggleStamp ''A'' ''01/01/2025'' demo_B))) ''C'' = None \<and>
   selectedIndex (snd (toggleStamp ''A'' ''01/01/2025'' demo_B)) = 0"
proof -
  have h1: "''A'' \<noteq> []" by simp
  have h2: "\<not> isVisited (visited demo_B) ''A''"
    by (simp add: demo_B_def isVisited_def)
  have h3: "''A'' \<in> set (map pool_id (pools demo_B))"
    by (simp add: demo_B_def demo_catalog_def)
  from toggleStamp_frame [OF h1 h2 h3, of "''01/01/2025''"] show ?thesis
    by (simp add: demo_B_def)
qed

subsection \<open>Stamping is one-way\<close>

lemma step_keeps_record:
  assumes "isVisited (visited st) k" and "e \<noteq> Reset True"
  shows "map_of (visited (step st e)) k = map_of (visited st) k"
proof (cases e)
  case (Claim k' d)
  show ?thesis
  proof (cases "k' = k")
    case True
    with assms(1) Claim show ?thesis by (simp add: toggleStamp_def)
  next
    case False
    with toggleStamp_visited_cases [of k' d st] Claim show ?thesis
      by (auto simp add: update_conv')
  qed
next
  case (Reset ok)
  with assms(2) show ?thesis by (simp add: resetBtn_click_def)
next
  case Up
  then show ?thesis by (simp add: btnUp_click_def Let_def)
next
  case Down
  then show ?thesis by (simp add: btnDown_click_def Let_def)
next
  case PrevPage
  then show ?thesis by (simp add: prevStampsPageBtn_click_def Let_def)
next
  case NextPage
  then show ?thesis by (simp add: nextStampsPageBtn_click_def Let_def)
next
  case (View b)
  then show ?thesis by (simp add: setView_def)
qed

lemma run_keeps_record:
  assumes "isVisited (visited st) k" and "Reset True \<notin> set evs"
  shows "map_of (visited (run st evs)) k = map_of (visited st) k"
  using assms
proof (induction evs arbitrary: st)
  case Nil
  then show ?case by (simp add: run_def)
next
  case (Cons e evs)
  from Cons.prems have e: "e \<noteq> Reset True" and rest: "Reset True \<notin> set evs"
    by auto
  from step_keeps_record [OF Cons.prems(1) e]
  have same: "map_of (visited (step st e)) k = map_of (visited st) k" .
  with Cons.prems(1) have "isVisited (visited (step st e)) k"
    by (simp add: isVisited_def)
  from Cons.IH [OF this rest] same show ?case
    by (simp add: run_def)
qed

lemma run_claims_noop:
  assumes "isVisited (visited st) k"
  shows "run st (map (Claim k) ds) = st"
proof (induction ds)
  case Nil
  show ?case by (simp add: run_def)
next
  case (Cons d ds)
  from assms have "step st (Claim k d) = st" by (simp add: toggleStamp_def)
  with Cons show ?case by (simp add: run_def)
qed

text \<open>
  Claim C1. When the ledger already holds a record with \<^verbatim>\<open>done\<close> set for an id,
  \<^verbatim>\<open>toggleStamp\<close> on that id returns at once and the whole state, ledger and store
  included, is what it was; so is the state after any number of such calls, whatever the
  dates. Through every sequence of actions without a confirmed reset the id stays visited
  and its record stays the same.
\<close>

theorem claim_again_is_noop:
  assumes "isVisited (visited st) k"
  shows "toggleStamp k today st = (Returned, st) \<and>
         run st (map (Claim k) ds) = st \<and>
         (Reset True \<notin> set evs \<longrightarrow>
            isVisited (visited (run st evs)) k \<and>
            map_of (visited (run st evs)) k = map_of (visited st) k)"
proof -
  from assms have "toggleStamp k today st = (Returned, st)"
    by (simp add: toggleStamp_def)
  moreover from assms have "run st (map (Claim k) ds) = st"
    by (rule run_claims_noop)
  moreover have "isVisited (visited (run st evs)) k \<and>
            map_of (visited (run st evs)) k = map_of (visited st) k"
    if "Reset True \<notin> set evs"
    using run_keeps_record [OF assms that] assms by (simp add: isVisited_def)
  ultimately show ?thesis by blast
qed

theorem claim_again_is_noop_witness:
  "isVisited (visited demo_B) ''B'' \<and>
   toggleStamp ''B'' ''09/03/2025'' demo_B = (Returned, demo_B) \<and>
   run demo_B (map (Claim ''B'') [''09/03/2025'', ''10/03/2025'', ''11/03/2025'']) = demo_B \<and>
   Reset True \<notin> set [Up, Claim ''A'' ''01/01/2025'', NextPage, Reset False, View True, Down] \<and>
   map_of (visited
     (run demo_B [Up, Claim ''A'' ''01/01/2025'', NextPage, Reset False, View True, Down])) ''B''
     = Some \<lparr>done_flag = True, date = ''02/01/2025''\<rparr>"
proof -
  have h: "isVisited (visited demo_B) ''B''"
    by (simp add: demo_B_def isVisited_def)
  have e: "Reset True \<notin> set [Up, Claim ''A'' ''01/01/2025'', NextPage, Reset False, View True, Down]"
    by simp
  from claim_again_is_noop [OF h, of "''09/03/2025''"
      "[''09/03/2025'', ''10/03/2025'', ''11/03/2025'']"
      "[Up, Claim ''A'' ''01/01/2025'', NextPage, Reset False, View True, Down]"] h e
  show ?thesis
    by (simp add: demo_B_def)
qed

subsection \<open>Claiming an unknown id\<close>

text \<open>
  Claim C9. Calling \<^verbatim>\<open>toggleStamp\<close> with an id that no pool of the catalog carries
  returns normally and leaves the whole state as it was: the ledger keeps its entries, no
  entry appears for the unknown id, and no slot of the store is written.
\<close>

theorem toggleStamp_unknown_id:
  assumes "k \<notin> set (map pool_id (pools st))"
  shows "toggleStamp k today st = (Returned, st)"
proof -
  from assms have "find (\<lambda>x. pool_id x = k) (pools st) = None"
    by (auto simp add: find_None_iff)
  then show ?thesis
    by (simp add: toggleStamp_def)
qed

theorem toggleStamp_unknown_id_witness:
  "''Z'' \<notin> set (map pool_id (pools demo_state)) \<and>
   toggleStamp ''Z'' ''02/01/2025'' demo_state = (Returned, demo_state)"
proof -
  have h: "''Z'' \<notin> set (map pool_id (pools demo_state))"
    by (simp add: demo_state_def demo_catalog_def init_def Let_def)
  from toggleStamp_unknown_id [OF h] h show ?thesis by simp
qed

subsection \<open>The selection at start-up\<close>

text \<open>
  Claim C8, as the claim has it, fails: an index at or beyond the end of the catalog is not
  replaced by 0. With three pools and the module variable holding 5, \<^verbatim>\<open>init\<close> selects
  the last pool, index 2.
\<close>

theorem init_selection_counterexample:
  "selectedIndex (init demo_catalog ((initial_state demo_store None)\<lparr>selectedIndex := 5\<rparr>)) = 2
   \<and> selectedIndex (init demo_catalog ((initial_state demo_store None)\<lparr>selectedIndex := 5\<rparr>))
       \<noteq> 0"
  by (simp add: init_def demo_catalog_def)

text \<open>
  Claim C8, amended. \<^verbatim>\<open>init\<close> turns a negative index into 0, keeps an index that lies
  inside the catalog, and turns an index at or beyond the end into the last index (0 for an
  empty catalog). Afterwards the selection lies in \<open>[0, length - 1]\<close> when the catalog is
  not empty and is 0 when it is empty. A selection slot that is missing is read as 0 and
  stays 0.
\<close>

theorem init_selection_in_bounds:
  "(selectedIndex st < 0 \<longrightarrow> selectedIndex (init loaded st) = 0) \<and>
   (0 \<le> selectedIndex st \<and> selectedIndex st < int (length loaded) \<longrightarrow>
      selectedIndex (init loaded st) = selectedIndex st) \<and>
   (0 \<le> selectedIndex st \<and> int (length loaded) \<le> selectedIndex st \<longrightarrow>
      selectedIndex (init loaded st) = max 0 (int (length loaded) - 1)) \<and>
   (loaded \<noteq> [] \<longrightarrow> in_catalog (init loaded st)) \<and>
   (loaded = [] \<longrightarrow> selectedIndex (init loaded st) = 0) \<and>
   (slot_selection s = None \<longrightarrow> selectedIndex (init loaded (initial_state s g)) = 0)"
  by (cases loaded)
    (auto simp add: init_def initial_state_def readSelection_def in_catalog_def Let_def)

theorem init_selection_in_bounds_witness:
  "selectedIndex (init demo_catalog ((initial_state demo_store None)\<lparr>selectedIndex := - 4\<rparr>)) = 0 \<and>
   selectedIndex (init demo_catalog ((initial_state demo_store None)\<lparr>selectedIndex := 1\<rparr>)) = 1 \<and>
   selectedIndex (init demo_catalog ((initial_state demo_store None)\<lparr>selectedIndex := 7\<rparr>)) = 2 \<and>
   in_catalog (init demo_catalog ((initial_state demo_store None)\<lparr>selectedIndex := 7\<rparr>)) \<and>
   selectedIndex (init [] ((initial_state demo_store None)\<lparr>selectedIndex := 7\<rparr>)) = 0 \<and>
   selectedIndex (init demo_catalog (initial_state demo_store None)) = 0"
  using
    init_selection_in_bounds [of "(initial_state demo_store None)\<lparr>selectedIndex := - 4\<rparr>"
      demo_catalog demo_store None]
    init_selection_in_bounds [of "(initial_state demo_store None)\<lparr>selectedIndex := 1\<rparr>"
      demo_catalog demo_store None]
    init_selection_in_bounds [of "(initial_state demo_store None)\<lparr>selectedIndex := 7\<rparr>"
      demo_catalog demo_store None]
    init_selection_in_bounds [of "(initial_state demo_store None)\<lparr>selectedIndex := 7\<rparr>"
      "[]" demo_store None]
  by (simp add: demo_store_def demo_catalog_def)

subsection \<open>Moving the selection\<close>

lemma smod_nonneg: "0 \<le> a \<Longrightarrow> 0 < b \<Longrightarrow> (a::int) smod b = a mod b"
  by (simp add: smod_int_alt_def sgn_if)

lemma step_Up:
  assumes "in_catalog st"
  shows "selectedIndex (step st Up) = (selectedIndex st + 1) mod int (length (pools st))"
    and "pools (step st Up) = pools st"
    and "in_catalog (step st Up)"
    and "slot_selection (storage (step st Up)) = Some (selectedIndex (step st Up))"
  using assms
  by (auto simp add: in_catalog_def btnUp_click_def Let_def smod_nonneg)

lemma step_Down:
  assumes "in_catalog st"
  shows "selectedIndex (step st Down) =
           (selectedIndex st - 1 + int (length (pools st))) mod int (length (pools st))"
    and "pools (step st Down) = pools st"
    and "in_catalog (step st Down)"
    and "slot_selection (storage (step st Down)) = Some (selectedIndex (step st Down))"
  using assms
  by (auto simp add: in_catalog_def btnDown_click_def Let_def smod_nonneg)

lemma run_Cons: "run st (e # evs) = run (step st e) evs"
  by (simp add: run_def)

lemma run_Up:
  assumes "in_catalog st"
  shows "selectedIndex (run st (replicate n Up)) =
           (selectedIndex st + int n) mod int (length (pools st))"
  using assms
proof (induction n arbitrary: st)
  case 0
  then show ?case by (simp add: run_def in_catalog_def)
next
  case (Suc n)
  from Suc.IH [OF step_Up(3) [OF Suc.prems]] step_Up(1,2) [OF Suc.prems]
  show ?case
    by (simp add: run_Cons mod_add_left_eq add.assoc)
qed

lemma run_Down:
  assumes "in_catalog st"
  shows "selectedIndex (run st (replicate n Down)) =
           (selectedIndex st - int n) mod int (length (pools st))"
  using assms
proof (induction n arbitrary: st)
  case 0
  then show ?case by (simp add: run_def in_catalog_def)
next
  case (Suc n)
  let ?N = "int (length (pools st))" and ?i = "selectedIndex st"
  have "selectedIndex (run st (replicate (Suc n) Down)) =
          (selectedIndex (step st Down) - int n) mod ?N"
    using Suc.IH [OF step_Down(3) [OF Suc.prems]] step_Down(2) [OF Suc.prems]
    by (simp add: run_Cons)
  also have "\<dots> = ((?i - 1 + ?N) mod ?N - int n) mod ?N"
    using step_Down(1) [OF Suc.prems] by simp
  also have "\<dots> = (?i - 1 + ?N - int n) mod ?N"
    by (rule mod_diff_left_eq)
  also have "?i - 1 + ?N - int n = (?i - int (Suc n)) + ?N"
    by simp
  also have "(?i - int (Suc n) + ?N) mod ?N = (?i - int (Suc n)) mod ?N"
    by simp
  finally show ?case .
qed

text \<open>
  Claim C5. With the selection at an index \<open>i\<close> of a catalog of \<open>N > 0\<close> pools, the up
  button selects \<open>(i + 1) mod N\<close> and the down button \<open>(i - 1 + N) mod N\<close>; \<open>N\<close> presses
  of either button bring the selection back to \<open>i\<close>. With an empty catalog both handlers
  return without touching the state, and the selection that \<^verbatim>\<open>init\<close> left at 0 stays 0.
\<close>

theorem selection_wraparound:
  "(in_catalog st \<longrightarrow>
      selectedIndex (snd (btnUp_click st)) = (selectedIndex st + 1) mod int (length (pools st)) \<and>
      selectedIndex (snd (btnDown_click st)) =
        (selectedIndex st - 1 + int (length (pools st))) mod int (length (pools st)) \<and>
      selectedIndex (run st (replicate (length (pools st)) Up)) = selectedIndex st \<and>
      selectedIndex (run st (replicate (length (pools st)) Down)) = selectedIndex st) \<and>
   (pools st = [] \<longrightarrow> btnUp_click st = (Returned, st) \<and> btnDown_click st = (Returned, st)) \<and>
   selectedIndex (snd (btnUp_click (init [] st))) = 0 \<and>
   selectedIndex (snd (btnDown_click (init [] st))) = 0"
proof -
  have "selectedIndex (run st (replicate (length (pools st)) Up)) = selectedIndex st"
    "selectedIndex (run st (replicate (length (pools st)) Down)) = selectedIndex st"
    if "in_catalog st"
    using run_Up [OF that, of "length (pools st)"] run_Down [OF that, of "length (pools st)"] that
    by (simp_all add: in_catalog_def)
  moreover have "selectedIndex (snd (btnUp_click st)) = (selectedIndex st + 1) mod int (length (pools st))"
    "selectedIndex (snd (btnDown_click st)) =
        (selectedIndex st - 1 + int (length (pools st))) mod int (length (pools st))"
    if "in_catalog st"
    using step_Up(1) [OF that] step_Down(1) [OF that] by simp_all
  moreover have "btnUp_click st = (Returned, st)" "btnDown_click st = (Returned, st)"
    if "pools st = []"
    using that by (simp_all add: btnUp_click_def btnDown_click_def)
  moreover have "selectedIndex (snd (btnUp_click (init [] st))) = 0"
    "selectedIndex (snd (btnDown_click (init [] st))) = 0"
    by (simp_all add: btnUp_click_def btnDown_click_def init_def Let_def)
  ultimately show ?thesis by blast
qed

theorem selection_wraparound_witness:
  "in_catalog (demo_B\<lparr>selectedIndex := 2\<rparr>) \<and>
   selectedIndex (snd (btnUp_click (demo_B\<lparr>selectedIndex := 2\<rparr>))) = 0 \<and>
   selectedIndex (snd (btnDown_click (demo_B\<lparr>selectedIndex := 2\<rparr>))) = 1 \<and>
   selectedIndex (snd (btnDown_click (demo_B\<lparr>selectedIndex := 0\<rparr>))) = 2 \<and>
   selectedIndex (run (demo_B\<lparr>selectedIndex := 2\<rparr>) [Up, Up, Up]) = 2 \<and>
   selectedIndex (run (demo_B\<lparr>selectedIndex := 2\<rparr>) [Down, Down, Down]) = 2 \<and>
   btnUp_click (init [] demo_state) = (Returned, init [] demo_state)"
proof -
  have h2: "in_catalog (demo_B\<lparr>selectedIndex := 2\<rparr>)"
    and h0: "in_catalog (demo_B\<lparr>selectedIndex := 0\<rparr>)"
    by (simp_all add: in_catalog_def demo_B_def demo_catalog_def)
  have e: "pools (init [] demo_state) = []"
    by (simp add: init_def Let_def)
  from selection_wraparound [of "demo_B\<lparr>selectedIndex := 2\<rparr>"]
    selection_wraparound [of "demo_B\<lparr>selectedIndex := 0\<rparr>"]
    selection_wraparound [of "init [] demo_state"] h2 h0 e
  show ?thesis
    by (simp add: demo_B_def demo_catalog_def)
qed

subsection \<open>The page cursor\<close>

lemma visitedPools_cong:
  "visited st' = visited st \<Longrightarrow> pools st' = pools st \<Longrightarrow> visitedPools st' = visitedPools st"
  by (simp add: visitedPools_def)

lemma visitedPools_renderStamps [simp]: "visitedPools (renderStamps st) = visitedPools st"
  by (rule visitedPools_cong) simp_all

lemma totalPages_pos: "1 \<le> totalPages n"
  by (simp add: totalPages_def)

lemma renderStamps_page:
  assumes "passportGrid st \<noteq> None"
  shows "currentStampsPage (renderStamps st) =
           min (currentStampsPage st) (totalPages (length (visitedPools st)) - 1)"
    and "slot_page (storage (renderStamps st)) = Some (currentStampsPage (renderStamps st))"
  using assms by (auto simp add: renderStamps_def Let_def)

lemma renderStamps_in_pages:
  assumes "passportGrid st \<noteq> None" and "0 \<le> currentStampsPage st"
  shows "in_pages (renderStamps st)"
  using assms totalPages_pos [of "length (visitedPools st)"]
  by (simp add: in_pages_def renderStamps_page)

lemma visitedPools_empty: "visited st = [] \<Longrightarrow> visitedPools st = []"
  by (simp add: visitedPools_def isVisited_def)

lemma totalPages_0: "totalPages 0 = 1"
  by (simp add: totalPages_def)

text \<open>
  Claim C4, as the claim has it, fails for a negative starting page: \<^verbatim>\<open>renderStamps\<close>
  takes the minimum with the last page and has no lower bound. From the page \<open>-1\<close>, with
  nothing visited and one page in all, the cursor after the render is still \<open>-1\<close>.
\<close>

theorem render_clamp_counterexample:
  "currentStampsPage (renderStamps (demo_state\<lparr>currentStampsPage := - 1\<rparr>)) = - 1 \<and>
   totalPages (length (visitedPools (demo_state\<lparr>currentStampsPage := - 1\<rparr>))) = 1"
  by (simp add: demo_state_eq renderStamps_page totalPages_0 visitedPools_empty)

text \<open>
  Claim C4, amended. When the grid element exists and the starting page is not negative,
  the cursor after \<^verbatim>\<open>renderStamps\<close> lies in \<open>[0, totalPages - 1]\<close>, where
  \<open>totalPages = max 1 (ceil (visited / 2))\<close>; so it does after the next-page handler
  (which adds one and renders), after the previous-page handler, and after a confirmed
  reset, which empties the ledger and leaves one page.
\<close>

theorem render_clamp_in_pages:
  assumes "passportGrid st \<noteq> None" and "0 \<le> currentStampsPage st"
  shows "in_pages (renderStamps st) \<and>
         in_pages (nextStampsPageBtn_click st) \<and>
         in_pages (prevStampsPageBtn_click st) \<and>
         in_pages (snd (resetBtn_click True st)) \<and>
         totalPages (length (visitedPools st))
           = max 1 \<lceil>real (length (visitedPools st)) / 2\<rceil>"
proof -
  have "in_pages (renderStamps st)"
    using assms by (rule renderStamps_in_pages)
  moreover have "in_pages (nextStampsPageBtn_click st)"
    unfolding nextStampsPageBtn_click_def Let_def
    using renderStamps_in_pages [of "writeStampsPage (currentStampsPage st + 1)
        (st\<lparr>currentStampsPage := currentStampsPage st + 1\<rparr>)"] assms
    by simp
  moreover have "in_pages (prevStampsPageBtn_click st)"
    unfolding prevStampsPageBtn_click_def Let_def
    using renderStamps_in_pages [of "writeStampsPage (max 0 (currentStampsPage st - 1))
        (st\<lparr>currentStampsPage := max 0 (currentStampsPage st - 1)\<rparr>)"] assms
    by simp
  moreover have "in_pages (snd (resetBtn_click True st))"
    using assms(1)
    by (auto simp add: resetBtn_click_def Let_def in_pages_def renderStamps_page
        visitedPools_empty totalPages_0 split: outcome.split)
  moreover have "totalPages (length (visitedPools st))
           = max 1 \<lceil>real (length (visitedPools st)) / 2\<rceil>"
    by (simp add: totalPages_def stampsPerPage_def)
  ultimately show ?thesis by blast
qed


theorem render_clamp_in_pages_witness:
  "in_pages (renderStamps (demo_B\<lparr>currentStampsPage := 7\<rparr>)) \<and>
   currentStampsPage (renderStamps (demo_B\<lparr>currentStampsPage := 7\<rparr>)) = 0 \<and>
   in_pages (nextStampsPageBtn_click demo_BAC) \<and>
   in_pages (nextStampsPageBtn_click (nextStampsPageBtn_click demo_BAC)) \<and>
   in_pages (snd (resetBtn_click True (nextStampsPageBtn_click demo_BAC)))"
proof -
  have g: "passportGrid (demo_B\<lparr>currentStampsPage := 7\<rparr>) \<noteq> None"
    "passportGrid demo_BAC \<noteq> None"
    "passportGrid (nextStampsPageBtn_click demo_BAC) \<noteq> None"
    by (simp_all add: demo_B_def demo_BAC_def nextStampsPageBtn_click_def renderStamps_def Let_def)
  have p: "0 \<le> currentStampsPage (demo_B\<lparr>currentStampsPage := 7\<rparr>)"
    "0 \<le> currentStampsPage demo_BAC"
    by (simp_all add: demo_BAC_def)
  have v: "visitedPools (demo_B\<lparr>currentStampsPage := 7\<rparr>) = [\<lparr>pool_id = ''B'', pool_name = ''Bravo''\<rparr>]"
    by (simp add: demo_B_def demo_catalog_def visitedPools_def isVisited_def)
  have n: "in_pages (nextStampsPageBtn_click demo_BAC)"
    using render_clamp_in_pages [OF g(2) p(2)] by simp
  then have p': "0 \<le> currentStampsPage (nextStampsPageBtn_click demo_BAC)"
    by (simp add: in_pages_def)
  from render_clamp_in_pages [OF g(1) p(1)] render_clamp_in_pages [OF g(3) p'] n
  show ?thesis
    by (simp add: renderStamps_page(1) [OF g(1)] v totalPages_div)
qed

subsection \<open>The visible page\<close>

lemma map_nth_upt_take_drop:
  assumes "j \<le> length xs"
  shows "map (nth xs) [i..<j] = take (j - i) (drop i xs)"
  using assms by (intro nth_equalityI) (auto simp add: min_def)

lemma js_slice_window:
  assumes "0 \<le> a" and "a \<le> b"
  shows "js_slice xs a b = window xs a b"
proof -
  let ?n = "int (length xs)"
  have j: "nat (min b ?n) \<le> length xs" by simp
  have "window xs a b = take (nat (min b ?n) - nat a) (drop (nat a) xs)"
    using assms map_nth_upt_take_drop [OF j, of "nat a"]
    by (simp add: window_def max_def)
  also have "\<dots> = take (nat (min b ?n - min a ?n)) (drop (nat (min a ?n)) xs)"
  proof (cases "a \<le> ?n")
    case True
    with assms show ?thesis by (simp add: min_def nat_diff_distrib')
  next
    case False
    with assms show ?thesis by (simp add: min_def)
  qed
  also have "\<dots> = js_slice xs a b"
    using assms by (simp add: js_slice_def Let_def)
  finally show ?thesis by simp
qed

lemma renderStamps_cards:
  assumes "passportGrid st \<noteq> None"
  shows "passportGrid (renderStamps st) =
           Some (js_slice (visitedPools st) (currentStampsPage (renderStamps st) * 2)
                   (currentStampsPage (renderStamps st) * 2 + 2))"
  using assms by (auto simp add: renderStamps_def Let_def stampsPerPage_def)

lemma visibleSlice_visitedPools:
  "visibleSlice (visited st) (pools st) p n = window (visitedPools st) (p * n) (p * n + n)"
  by (simp add: visibleSlice_def visitedPools_def)

lemma visitedPools_update_page [simp]:
  "visitedPools (st\<lparr>currentStampsPage := p\<rparr>) = visitedPools st"
  by (rule visitedPools_cong) simp_all

lemma visitedPools_demo:
  "visitedPools demo_B = [\<lparr>pool_id = ''B'', pool_name = ''Bravo''\<rparr>]"
  "visitedPools demo_BA =
     [\<lparr>pool_id = ''A'', pool_name = ''Alpha''\<rparr>, \<lparr>pool_id = ''B'', pool_name = ''Bravo''\<rparr>]"
  "visitedPools demo_BAC =
     [\<lparr>pool_id = ''A'', pool_name = ''Alpha''\<rparr>, \<lparr>pool_id = ''B'', pool_name = ''Bravo''\<rparr>,
      \<lparr>pool_id = ''C'', pool_name = ''Charlie''\<rparr>]"
  by (simp_all add: demo_B_def demo_BA_def demo_BAC_def demo_catalog_def visitedPools_def
      isVisited_def date_of_def demo_keys)

lemma demo_grids:
  "passportGrid (demo_B\<lparr>currentStampsPage := p\<rparr>) \<noteq> None"
  "passportGrid (demo_BAC\<lparr>currentStampsPage := p\<rparr>) \<noteq> None"
  by (simp_all add: demo_B_def demo_BAC_def)

lemma visibleSlice_demo:
  "visibleSlice (visited demo_B) (pools demo_B) p n = window (visitedPools demo_B) (p * n) (p * n + n)"
  "visibleSlice (visited demo_BAC) (pools demo_BAC) p n = window (visitedPools demo_BAC) (p * n) (p * n + n)"
  by (rule visibleSlice_visitedPools)+

text \<open>
  Claim C3, as the claim has it, fails, for the page index is not used as given. With one
  visited pool and the cursor at page 1, \<^verbatim>\<open>renderStamps\<close> first lowers the cursor to
  the last page, 0, and shows B, where the window \<open>[2, 4)\<close> of the one sorted entry is
  empty. With three visited pools and the cursor at \<open>-2\<close> it calls
  \<^verbatim>\<open>slice(-4, -2)\<close>, which counts from the end and yields A, where the window
  \<open>[-4, -2)\<close> is empty.
\<close>

theorem renderStamps_window_counterexample:
  "passportGrid (renderStamps (demo_B\<lparr>currentStampsPage := 1\<rparr>))
     = Some [\<lparr>pool_id = ''B'', pool_name = ''Bravo''\<rparr>] \<and>
   visibleSlice (visited demo_B) (pools demo_B) 1 2 = [] \<and>
   passportGrid (renderStamps (demo_BAC\<lparr>currentStampsPage := - 2\<rparr>))
     = Some [\<lparr>pool_id = ''A'', pool_name = ''Alpha''\<rparr>] \<and>
   visibleSlice (visited demo_BAC) (pools demo_BAC) (- 2) 2 = []"
  by (simp add: renderStamps_cards [OF demo_grids(1)] renderStamps_cards [OF demo_grids(2)]
      renderStamps_page(1) [OF demo_grids(1)] renderStamps_page(1) [OF demo_grids(2)]
      visibleSlice_demo visitedPools_demo totalPages_div js_slice_def window_def)

text \<open>
  Claim C3, amended. The page size is the constant 2. When the grid element exists and the
  cursor is not negative, \<^verbatim>\<open>renderStamps\<close> shows the catalog entries with a
  \<^verbatim>\<open>done\<close> record, sorted ascending by the normalized date key, cut to the window
  \<open>[q * 2, q * 2 + 2)\<close>, where \<open>q\<close> is the cursor after the re-clamp: the given page, or
  the last page when the given page lies beyond it. For a cursor within the pages the
  window is that of the given page.
\<close>

theorem renderStamps_window:
  assumes "passportGrid st \<noteq> None" and "0 \<le> currentStampsPage st"
  shows "passportGrid (renderStamps st) =
           Some (visibleSlice (visited st) (pools st) (currentStampsPage (renderStamps st)) 2) \<and>
         currentStampsPage (renderStamps st) =
           min (currentStampsPage st) (totalPages (length (visitedPools st)) - 1) \<and>
         (in_pages st \<longrightarrow>
            passportGrid (renderStamps st) =
              Some (visibleSlice (visited st) (pools st) (currentStampsPage st) 2)) \<and>
         sorted (map (\<lambda>p. dateKey (date_of (visited st) (pool_id p))) (visitedPools st)) \<and>
         set (visitedPools st) = {p \<in> set (pools st). isVisited (visited st) (pool_id p)}"
proof -
  let ?p = "currentStampsPage (renderStamps st)"
  have p: "?p = min (currentStampsPage st) (totalPages (length (visitedPools st)) - 1)"
    using assms(1) by (rule renderStamps_page(1))
  have "0 \<le> ?p"
    using renderStamps_in_pages [OF assms] by (simp add: in_pages_def)
  then have "js_slice (visitedPools st) (?p * 2) (?p * 2 + 2) =
               window (visitedPools st) (?p * 2) (?p * 2 + 2)"
    by (intro js_slice_window) simp_all
  with renderStamps_cards [OF assms(1)]
  have w: "passportGrid (renderStamps st) = Some (visibleSlice (visited st) (pools st) ?p 2)"
    by (simp add: visibleSlice_visitedPools)
  have "passportGrid (renderStamps st) =
              Some (visibleSlice (visited st) (pools st) (currentStampsPage st) 2)"
    if "in_pages st"
    using that w p by (simp add: in_pages_def min_def)
  moreover have "sorted (map (\<lambda>p. dateKey (date_of (visited st) (pool_id p))) (visitedPools st))"
    by (simp add: visitedPools_def)
  moreover have "set (visitedPools st) = {p \<in> set (pools st). isVisited (visited st) (pool_id p)}"
    by (simp add: visitedPools_def)
  ultimately show ?thesis using w p by blast
qed


lemma upt_0_2: "[0..<2] = [0, Suc 0]"
  by (simp add: numeral_2_eq_2)

theorem renderStamps_window_witness:
  "passportGrid (renderStamps (run demo_state [Claim ''B'' ''02/01/2025'']))
     = Some [\<lparr>pool_id = ''B'', pool_name = ''Bravo''\<rparr>] \<and>
   passportGrid
     (renderStamps (run demo_state [Claim ''B'' ''02/01/2025'', Claim ''A'' ''01/01/2025'']))
     = Some [\<lparr>pool_id = ''A'', pool_name = ''Alpha''\<rparr>, \<lparr>pool_id = ''B'', pool_name = ''Bravo''\<rparr>] \<and>
   passportGrid
     (run demo_state [Claim ''B'' ''02/01/2025'', Claim ''A'' ''01/01/2025'',
        Claim ''C'' ''03/01/2025'', NextPage])
     = Some [\<lparr>pool_id = ''C'', pool_name = ''Charlie''\<rparr>]"
proof -
  let ?S = "writeStampsPage 1 (demo_BAC\<lparr>currentStampsPage := 1\<rparr>)"
  have c: "currentStampsPage demo_B = 0" "currentStampsPage demo_BA = 0"
    "currentStampsPage ?S = 1"
    by (simp_all add: demo_B_def demo_BA_def)
  have g: "passportGrid demo_B \<noteq> None" "passportGrid demo_BA \<noteq> None"
    "passportGrid ?S \<noteq> None"
    by (simp_all add: demo_B_def demo_BA_def demo_BAC_def)
  have p: "0 \<le> currentStampsPage demo_B" "0 \<le> currentStampsPage demo_BA"
    "0 \<le> currentStampsPage ?S"
    by (simp_all only: c)
  have v: "visited ?S = visited demo_BAC" "pools ?S = pools demo_BAC"
    by simp_all
  have vp: "visitedPools ?S = visitedPools demo_BAC"
    by (rule visitedPools_cong) simp_all
  have i: "in_pages demo_B" "in_pages demo_BA" "in_pages ?S"
    unfolding in_pages_def vp c by (simp_all add: visitedPools_demo totalPages_div)
  have w: "visibleSlice (visited demo_B) (pools demo_B) 0 2
             = [\<lparr>pool_id = ''B'', pool_name = ''Bravo''\<rparr>]"
    "visibleSlice (visited demo_BA) (pools demo_BA) 0 2
       = [\<lparr>pool_id = ''A'', pool_name = ''Alpha''\<rparr>, \<lparr>pool_id = ''B'', pool_name = ''Bravo''\<rparr>]"
    "visibleSlice (visited demo_BAC) (pools demo_BAC) 1 2
       = [\<lparr>pool_id = ''C'', pool_name = ''Charlie''\<rparr>]"
    by (simp_all add: visibleSlice_visitedPools visitedPools_demo window_def upt_0_2)
  have "passportGrid (renderStamps demo_B) =
          Some (visibleSlice (visited demo_B) (pools demo_B) (currentStampsPage demo_B) 2)"
    using renderStamps_window [OF g(1) p(1)] i(1) by blast
  then have r1: "passportGrid (renderStamps demo_B) = Some [\<lparr>pool_id = ''B'', pool_name = ''Bravo''\<rparr>]"
    by (simp only: c w)
  have "passportGrid (renderStamps demo_BA) =
          Some (visibleSlice (visited demo_BA) (pools demo_BA) (currentStampsPage demo_BA) 2)"
    using renderStamps_window [OF g(2) p(2)] i(2) by blast
  then have r2: "passportGrid (renderStamps demo_BA) =
     Some [\<lparr>pool_id = ''A'', pool_name = ''Alpha''\<rparr>, \<lparr>pool_id = ''B'', pool_name = ''Bravo''\<rparr>]"
    by (simp only: c w)
  have "passportGrid (renderStamps ?S) =
          Some (visibleSlice (visited ?S) (pools ?S) (currentStampsPage ?S) 2)"
    using renderStamps_window [OF g(3) p(3)] i(3) by blast
  then have "passportGrid (renderStamps ?S) = Some [\<lparr>pool_id = ''C'', pool_name = ''Charlie''\<rparr>]"
    by (simp only: c v w)
  moreover have "nextStampsPageBtn_click demo_BAC = renderStamps ?S"
    by (simp add: nextStampsPageBtn_click_def Let_def demo_BAC_def)
  ultimately have r3: "passportGrid (nextStampsPageBtn_click demo_BAC) =
     Some [\<lparr>pool_id = ''C'', pool_name = ''Charlie''\<rparr>]"
    by (simp only:)
  from r1 r2 r3 show ?thesis by (simp only: demo_session)
qed

subsection \<open>Reset\<close>

text \<open>
  Claim C6, as the claim has it, fails: the handler clears nothing unless the user confirms
  the dialog. With three stamps claimed and the dialog cancelled, the state is unchanged and
  three records are still counted.
\<close>

theorem reset_counterexample:
  "resetBtn_click False demo_BAC = (Returned, demo_BAC) \<and>
   countVisited (visited (snd (resetBtn_click False demo_BAC))) = 3"
  by (simp add: resetBtn_click_def) (simp add: demo_BAC_def countVisited_def)

lemma renderList_cong:
  "pools st' = pools st \<Longrightarrow> selectedIndex st' = selectedIndex st \<Longrightarrow>
   renderList st' = renderList st"
  by (simp add: renderList_def)

lemma reset_state:
  "snd (resetBtn_click True st) =
     (let st2 = writeStampsPage 0 ((writeVisited [] (st\<lparr>visited := []\<rparr>))\<lparr>currentStampsPage := 0\<rparr>)
      in if renderList st = Returned then renderStamps st2 else st2)"
proof -
  let ?st2 = "writeStampsPage 0 ((writeVisited [] (st\<lparr>visited := []\<rparr>))\<lparr>currentStampsPage := 0\<rparr>)"
  have "renderList ?st2 = renderList st"
    by (rule renderList_cong) simp_all
  then show ?thesis
    by (cases "renderList st") (simp_all add: resetBtn_click_def Let_def)
qed

text \<open>
  Claim C6, amended. Once the user has confirmed the dialog, the reset handler empties the
  ledger whatever it held and stores the empty ledger; afterwards no id is visited, the
  count is 0, there is one page, and the page cursor and its slot are 0 whatever the page
  was before; the grid, if the document has one and the list could be rendered, shows no
  card. When the dialog is cancelled the state is unchanged.
\<close>

theorem reset_clears:
  "visited (snd (resetBtn_click True st)) = [] \<and>
   slot_visited (storage (snd (resetBtn_click True st))) = Some [] \<and>
   countVisited (visited (snd (resetBtn_click True st))) = 0 \<and>
   (\<forall>k. \<not> isVisited (visited (snd (resetBtn_click True st))) k) \<and>
   visitedPools (snd (resetBtn_click True st)) = [] \<and>
   totalPages (length (visitedPools (snd (resetBtn_click True st)))) = 1 \<and>
   currentStampsPage (snd (resetBtn_click True st)) = 0 \<and>
   slot_page (storage (snd (resetBtn_click True st))) = Some 0 \<and>
   (passportGrid st \<noteq> None \<and> renderList st = Returned
      \<longrightarrow> passportGrid (snd (resetBtn_click True st)) = Some []) \<and>
   resetBtn_click False st = (Returned, st)"
proof -
  let ?st' = "snd (resetBtn_click True st)"
  let ?st2 = "writeStampsPage 0 ((writeVisited [] (st\<lparr>visited := []\<rparr>))\<lparr>currentStampsPage := 0\<rparr>)"
  have v2: "visited ?st2 = []" by simp
  have vp2: "visitedPools ?st2 = []" using v2 by (rule visitedPools_empty)
  have v: "visited ?st' = []"
    by (simp add: reset_state Let_def)
  have sv: "slot_visited (storage ?st') = Some []"
    by (simp add: reset_state Let_def)
  have vp: "visitedPools ?st' = []"
    using v by (rule visitedPools_empty)
  have r2: "currentStampsPage (renderStamps ?st2) = 0 \<and>
            slot_page (storage (renderStamps ?st2)) = Some 0"
    by (simp add: renderStamps_def Let_def vp2 totalPages_0 split: option.split)
  have pg: "currentStampsPage ?st' = 0 \<and> slot_page (storage ?st') = Some 0"
    using r2 by (simp add: reset_state Let_def)
  have gr: "passportGrid ?st' = Some []"
    if "passportGrid st \<noteq> None" and "renderList st = Returned"
  proof -
    from that(1) have "passportGrid ?st2 \<noteq> None" by simp
    from renderStamps_cards [OF this] that(2) show ?thesis
      by (simp add: reset_state Let_def vp2 js_slice_def)
  qed
  have no: "resetBtn_click False st = (Returned, st)"
    by (simp add: resetBtn_click_def)
  from v sv vp pg gr no show ?thesis
    by (simp add: countVisited_def isVisited_def totalPages_0)
qed

theorem reset_clears_witness:
  "visited (snd (resetBtn_click True demo_BAC)) = [] \<and>
   currentStampsPage (snd (resetBtn_click True (nextStampsPageBtn_click demo_BAC))) = 0 \<and>
   passportGrid (snd (resetBtn_click True demo_BAC)) = Some [] \<and>
   snd (resetBtn_click False demo_BAC) = demo_BAC"
proof -
  have g: "passportGrid demo_BAC \<noteq> None"
    by (simp add: demo_BAC_def)
  have r: "renderList demo_BAC = Returned"
    by (simp add: demo_BAC_def demo_catalog_def renderList_def)
  from reset_clears [of demo_BAC] reset_clears [of "nextStampsPageBtn_click demo_BAC"] g r
  show ?thesis by simp
qed

subsection \<open>Completion\<close>





















subsection \<open>The date key\<close>

lemma matches_Nil: "matches [] s \<longleftrightarrow> s = []"
  by (cases s) simp_all

lemma matches_Digit: "matches (Digit # ps) s \<longleftrightarrow> (\<exists>c cs. s = c # cs \<and> is_digit c \<and> matches ps cs)"
  by (cases s) simp_all

lemma matches_Lit: "matches (Lit l # ps) s \<longleftrightarrow> (\<exists>cs. s = l # cs \<and> matches ps cs)"
  by (cases s) auto

lemma iso_shape:
  "matches iso_pattern s \<longleftrightarrow>
     (\<exists>a b c d e f g h. s = [a, b, c, d, CHR ''-'', e, f, CHR ''-'', g, h] \<and>
        list_all is_digit [a, b, c, d, e, f, g, h])"
  by (auto simp add: iso_pattern_def matches_Nil matches_Digit matches_Lit)

lemma au_shape:
  "matches au_pattern s \<longleftrightarrow>
     (\<exists>a b c d e f g h. s = [a, b, CHR ''/'', c, d, CHR ''/'', e, f, g, h] \<and>
        list_all is_digit [a, b, c, d, e, f, g, h])"
  by (auto simp add: au_pattern_def matches_Nil matches_Digit matches_Lit)

lemma digit_not_sep: "is_digit c \<Longrightarrow> c \<noteq> CHR ''-'' \<and> c \<noteq> CHR ''/''"
  by (auto simp add: is_digit_def)

lemma sep_not_digit [simp]: "\<not> is_digit CHR ''-''" "\<not> is_digit CHR ''/''"
  by (simp_all add: is_digit_def)

lemma dateKey_iso:
  assumes "matches iso_pattern s"
  shows "dateKey s = take 4 s @ take 2 (drop 5 s) @ drop 8 s"
proof -
  from assms obtain a b c d e f g h
    where s: "s = [a, b, c, d, CHR ''-'', e, f, CHR ''-'', g, h]"
      and dg: "list_all is_digit [a, b, c, d, e, f, g, h]"
    unfolding iso_shape by blast
  from dg have "filter (\<lambda>c. c \<noteq> CHR ''-'') s = [a, b, c, d, e, f, g, h]"
    by (simp add: s digit_not_sep)
  with assms show ?thesis
    by (simp add: dateKey_def) (simp add: s)
qed

lemma dateKey_au:
  assumes "matches au_pattern s"
  shows "dateKey s = drop 6 s @ take 2 (drop 3 s) @ take 2 s"
proof -
  from assms obtain a b c d e f g h
    where s: "s = [a, b, CHR ''/'', c, d, CHR ''/'', e, f, g, h]"
      and dg: "list_all is_digit [a, b, c, d, e, f, g, h]"
    unfolding au_shape by blast
  have ni: "\<not> matches iso_pattern s"
    by (simp add: s iso_pattern_def)
  from dg have sp: "split_on (CHR ''/'') s = [[a, b], [c, d], [e, f, g, h]]"
    by (simp add: s digit_not_sep)
  from assms ni show ?thesis
    by (simp add: dateKey_def sp part_def Let_def) (simp add: s)
qed

lemma dateKey_digits: "list_all is_digit (dateKey s)"
proof -
  consider "matches iso_pattern s" | "\<not> matches iso_pattern s" "matches au_pattern s"
    | "\<not> matches iso_pattern s" "\<not> matches au_pattern s"
    by blast
  then show ?thesis
  proof cases
    case 1
    then obtain a b c d e f g h
      where s: "s = [a, b, c, d, CHR ''-'', e, f, CHR ''-'', g, h]"
        and dg: "list_all is_digit [a, b, c, d, e, f, g, h]"
      unfolding iso_shape by blast
    with dateKey_iso [OF 1] show ?thesis by simp
  next
    case 2
    then obtain a b c d e f g h
      where s: "s = [a, b, CHR ''/'', c, d, CHR ''/'', e, f, g, h]"
        and dg: "list_all is_digit [a, b, c, d, e, f, g, h]"
      unfolding au_shape by blast
    with dateKey_au [OF 2(2)] show ?thesis by simp
  next
    case 3
    then show ?thesis by (simp add: dateKey_def list_all_iff)
  qed
qed


lemma digit_code:
  assumes "is_digit c"
  shows "48 \<le> (of_char c :: nat)" and "(of_char c :: nat) \<le> 57"
  using assms by (simp_all add: is_digit_def less_eq_char_def)

lemma digit_val_bound: "is_digit c \<Longrightarrow> digit_val c < 10"
  using digit_code [of c] by (simp add: digit_val_def)

lemma digit_val_less:
  assumes "is_digit c" and "is_digit d"
  shows "c < d \<longleftrightarrow> digit_val c < digit_val d"
  using digit_code(1) [OF assms(1)] digit_code(1) [OF assms(2)]
  by (auto simp add: digit_val_def less_char_def)

lemma digit_val_eq:
  assumes "is_digit c" and "is_digit d"
  shows "c = d \<longleftrightarrow> digit_val c = digit_val d"
proof -
  have "digit_val c = digit_val d \<longleftrightarrow> (of_char c :: nat) = of_char d"
    using digit_code(1) [OF assms(1)] digit_code(1) [OF assms(2)]
    unfolding digit_val_def by linarith
  also have "\<dots> \<longleftrightarrow> c = d"
    by (rule of_char_eq_iff)
  finally show ?thesis by simp
qed

lemma str_val_bound: "list_all is_digit cs \<Longrightarrow> str_val cs < 10 ^ length cs"
proof (induction cs)
  case Nil
  show ?case by simp
next
  case (Cons c cs)
  then have "digit_val c < 10" and "str_val cs < 10 ^ length cs"
    by (simp_all add: digit_val_bound)
  then have "digit_val c * 10 ^ length cs + str_val cs < (digit_val c + 1) * 10 ^ length cs"
    by simp
  also from \<open>digit_val c < 10\<close> have "(digit_val c + 1) * 10 ^ length cs \<le> 10 * 10 ^ length cs"
    by (intro mult_le_mono1) simp
  finally show ?case by simp
qed

lemma str_val_append: "str_val (xs @ ys) = str_val xs * 10 ^ length ys + str_val ys"
  by (induction xs) (simp_all add: algebra_simps power_add)

lemma positional_less:
  fixes a b v w P :: nat
  assumes "v < P" and "w < P"
  shows "a * P + v < b * P + w \<longleftrightarrow> a < b \<or> (a = b \<and> v < w)"
proof -
  consider "a < b" | "a = b" | "b < a" by linarith
  then show ?thesis
  proof cases
    case 1
    then have "(a + 1) * P \<le> b * P" by (intro mult_le_mono1) simp
    with assms 1 show ?thesis by simp
  next
    case 2
    then show ?thesis by simp
  next
    case 3
    then have "(b + 1) * P \<le> a * P" by (intro mult_le_mono1) simp
    with assms 3 show ?thesis by simp
  qed
qed

lemma positional_eq:
  fixes a b v w P :: nat
  assumes "v < P" and "w < P"
  shows "a * P + v = b * P + w \<longleftrightarrow> a = b \<and> v = w"
  using positional_less [OF assms, of a b] positional_less [OF assms(2,1), of b a]
  by (metis add_left_cancel less_irrefl_nat nat_neq_iff)

lemma digits_less_iff:
  assumes "length xs = length ys" and "list_all is_digit xs" and "list_all is_digit ys"
  shows "(xs < ys \<longleftrightarrow> str_val xs < str_val ys) \<and> (xs = ys \<longleftrightarrow> str_val xs = str_val ys)"
  using assms
proof (induction xs ys rule: list_induct2)
  case Nil
  show ?case by simp
next
  case (Cons c cs d ds)
  let ?P = "10 ^ length cs :: nat"
  from Cons.prems have dc: "is_digit c" and dd: "is_digit d"
    and dcs: "list_all is_digit cs" and dds: "list_all is_digit ds"
    by simp_all
  from Cons.IH [OF dcs dds]
  have IH1: "cs < ds \<longleftrightarrow> str_val cs < str_val ds"
    and IH2: "cs = ds \<longleftrightarrow> str_val cs = str_val ds"
    by blast+
  have bc: "str_val cs < ?P" using dcs by (rule str_val_bound)
  have bd: "str_val ds < ?P" using str_val_bound [OF dds] Cons.hyps by simp
  have vc: "str_val (c # cs) = digit_val c * ?P + str_val cs" by simp
  have vd: "str_val (d # ds) = digit_val d * ?P + str_val ds"
    using Cons.hyps by simp
  have "c # cs < d # ds \<longleftrightarrow> c < d \<or> (c = d \<and> cs < ds)"
    by (rule Cons_less_Cons)
  also have "\<dots> \<longleftrightarrow> digit_val c < digit_val d \<or>
      (digit_val c = digit_val d \<and> str_val cs < str_val ds)"
    unfolding digit_val_less [OF dc dd] digit_val_eq [OF dc dd] IH1 ..
  also have "\<dots> \<longleftrightarrow> str_val (c # cs) < str_val (d # ds)"
    unfolding vc vd positional_less [OF bc bd] ..
  finally have less: "c # cs < d # ds \<longleftrightarrow> str_val (c # cs) < str_val (d # ds)" .
  have "c # cs = d # ds \<longleftrightarrow> c = d \<and> cs = ds"
    by simp
  also have "\<dots> \<longleftrightarrow> digit_val c = digit_val d \<and> str_val cs = str_val ds"
    unfolding digit_val_eq [OF dc dd] IH2 ..
  also have "\<dots> \<longleftrightarrow> str_val (c # cs) = str_val (d # ds)"
    unfolding vc vd positional_eq [OF bc bd] ..
  finally have "c # cs = d # ds \<longleftrightarrow> str_val (c # cs) = str_val (d # ds)" .
  with less show ?case by blast
qed


lemma length_4: "length xs = 4 \<Longrightarrow> \<exists>a b c d. xs = [a, b, c, d]"
  by (auto simp add: eval_nat_numeral length_Suc_conv)

lemma length_2: "length xs = 2 \<Longrightarrow> \<exists>a b. xs = [a, b]"
  by (auto simp add: eval_nat_numeral length_Suc_conv)

lemma dateKey_show_date:
  assumes "date_fields y m d"
  shows "matches iso_pattern (show_date Iso y m d)"
    and "matches au_pattern (show_date Au y m d)"
    and "dateKey (show_date f y m d) = y @ m @ d"
proof -
  from assms obtain y1 y2 y3 y4 m1 m2 d1 d2
    where y: "y = [y1, y2, y3, y4]" and m: "m = [m1, m2]" and d: "d = [d1, d2]"
    unfolding date_fields_def using length_4 [of y] length_2 [of m] length_2 [of d] by blast
  from assms have dg: "list_all is_digit [y1, y2, y3, y4, m1, m2, d1, d2]"
    by (simp add: date_fields_def y m d)
  show i: "matches iso_pattern (show_date Iso y m d)"
    unfolding iso_shape using dg by (simp add: y m d)
  show a: "matches au_pattern (show_date Au y m d)"
    unfolding au_shape using dg by (simp add: y m d)
  show "dateKey (show_date f y m d) = y @ m @ d"
  proof (cases f)
    case Iso
    with dateKey_iso [OF i] show ?thesis by (simp add: y m d)
  next
    case Au
    with dateKey_au [OF a] show ?thesis by (simp add: y m d)
  qed
qed

lemma ymd_val:
  assumes "date_fields y m d"
  shows "str_val (y @ m @ d) = str_val y * 10000 + (str_val m * 100 + str_val d)"
    and "str_val m * 100 + str_val d < 10000" and "str_val d < 100"
proof -
  from assms have l: "length y = 4" "length m = 2" "length d = 2"
    and dm: "list_all is_digit m" and dd: "list_all is_digit d"
    by (simp_all add: date_fields_def)
  show "str_val (y @ m @ d) = str_val y * 10000 + (str_val m * 100 + str_val d)"
    by (simp add: str_val_append l)
  from str_val_bound [OF dd] show d100: "str_val d < 100" by (simp add: l)
  from str_val_bound [OF dm] have "str_val m < 100" by (simp add: l)
  with d100 show "str_val m * 100 + str_val d < 10000" by simp
qed

lemma dateKey_chronological:
  assumes "date_fields y1 m1 d1" and "date_fields y2 m2 d2"
  shows "dateKey (show_date f y1 m1 d1) < dateKey (show_date g y2 m2 d2) \<longleftrightarrow>
           earlier (str_val y1, str_val m1, str_val d1) (str_val y2, str_val m2, str_val d2)"
proof -
  let ?k1 = "y1 @ m1 @ d1" and ?k2 = "y2 @ m2 @ d2"
  from assms have len: "length ?k1 = length ?k2"
    and dg: "list_all is_digit ?k1" "list_all is_digit ?k2"
    by (simp_all add: date_fields_def)
  have "dateKey (show_date f y1 m1 d1) < dateKey (show_date g y2 m2 d2) \<longleftrightarrow> ?k1 < ?k2"
    by (simp only: dateKey_show_date(3) [OF assms(1)] dateKey_show_date(3) [OF assms(2)])
  also have "\<dots> \<longleftrightarrow> str_val ?k1 < str_val ?k2"
    using digits_less_iff [OF len dg] by blast
  also have "\<dots> \<longleftrightarrow> str_val y1 < str_val y2 \<or>
      (str_val y1 = str_val y2 \<and> str_val m1 * 100 + str_val d1 < str_val m2 * 100 + str_val d2)"
    unfolding ymd_val(1) [OF assms(1)] ymd_val(1) [OF assms(2)]
    by (rule positional_less [OF ymd_val(2) [OF assms(1)] ymd_val(2) [OF assms(2)]])
  also have "str_val m1 * 100 + str_val d1 < str_val m2 * 100 + str_val d2 \<longleftrightarrow>
      str_val m1 < str_val m2 \<or> (str_val m1 = str_val m2 \<and> str_val d1 < str_val d2)"
    by (rule positional_less [OF ymd_val(3) [OF assms(1)] ymd_val(3) [OF assms(2)]])
  finally show ?thesis by simp
qed

text \<open>
  Claim C2. \<^verbatim>\<open>dateKey\<close> maps a string that matches \<^verbatim>\<open>YYYY-MM-DD\<close> to its eight digits
  \<^verbatim>\<open>YYYYMMDD\<close>, a string that matches \<^verbatim>\<open>DD/MM/YYYY\<close> to \<^verbatim>\<open>YYYYMMDD\<close> as well, and
  every other string to its digits, all other characters removed; the key is always a
  string of digits. Both renderings of a date have the same key, year then month then day,
  so one key is lexically below another exactly when its date is the earlier one, whichever
  format each date is stored in; so it is for \<^verbatim>\<open>"2025-01-05"\<close>, \<^verbatim>\<open>"06/01/2025"\<close> and
  \<^verbatim>\<open>"07/01/2025"\<close>.
\<close>

theorem dateKey_normalizes:
  "(matches iso_pattern s \<longrightarrow> dateKey s = take 4 s @ take 2 (drop 5 s) @ drop 8 s) \<and>
   (matches au_pattern s \<longrightarrow> dateKey s = drop 6 s @ take 2 (drop 3 s) @ take 2 s) \<and>
   (\<not> matches iso_pattern s \<and> \<not> matches au_pattern s \<longrightarrow> dateKey s = filter is_digit s) \<and>
   list_all is_digit (dateKey s) \<and>
   (date_fields y m d \<longrightarrow>
      matches iso_pattern (show_date Iso y m d) \<and> matches au_pattern (show_date Au y m d) \<and>
      dateKey (show_date f y m d) = y @ m @ d) \<and>
   (date_fields y1 m1 d1 \<and> date_fields y2 m2 d2 \<longrightarrow>
      (dateKey (show_date f y1 m1 d1) < dateKey (show_date g y2 m2 d2) \<longleftrightarrow>
         earlier (str_val y1, str_val m1, str_val d1) (str_val y2, str_val m2, str_val d2))) \<and>
   dateKey ''2025-01-05'' < dateKey ''06/01/2025'' \<and>
   dateKey ''06/01/2025'' < dateKey ''07/01/2025''"
proof -
  have other: "dateKey s = filter is_digit s"
    if "\<not> matches iso_pattern s" and "\<not> matches au_pattern s"
    using that by (simp add: dateKey_def)
  have ex: "dateKey ''2025-01-05'' < dateKey ''06/01/2025''"
    "dateKey ''06/01/2025'' < dateKey ''07/01/2025''"
    by (simp_all add: key_defs)
  from dateKey_iso [of s] dateKey_au [of s] other dateKey_digits [of s]
    dateKey_show_date [of y m d] dateKey_chronological [of y1 m1 d1 y2 m2 d2] ex
  show ?thesis by blast
qed

theorem dateKey_normalizes_witness:
  "dateKey ''2025-01-05'' = ''20250105'' \<and>
   dateKey ''06/01/2025'' = ''20250106'' \<and>
   dateKey ''5 Jan 2025'' = ''52025'' \<and>
   date_fields ''2025'' ''01'' ''05'' \<and> date_fields ''2024'' ''12'' ''31'' \<and>
   dateKey (show_date Au ''2024'' ''12'' ''31'') < dateKey (show_date Iso ''2025'' ''01'' ''05'') \<and>
   \<not> dateKey (show_date Iso ''2025'' ''01'' ''05'') < dateKey (show_date Au ''2024'' ''12'' ''31'')"
proof -
  have m: "matches iso_pattern ''2025-01-05''" "matches au_pattern ''06/01/2025''"
    "\<not> matches iso_pattern ''5 Jan 2025''" "\<not> matches au_pattern ''5 Jan 2025''"
    by (simp_all add: iso_pattern_def au_pattern_def is_digit_def)
  have df: "date_fields ''2025'' ''01'' ''05''" "date_fields ''2024'' ''12'' ''31''"
    by (simp_all add: date_fields_def is_digit_def)
  have v: "str_val ''2024'' = 2024" "str_val ''2025'' = 2025" "str_val ''12'' = 12"
    "str_val ''01'' = 1" "str_val ''31'' = 31" "str_val ''05'' = 5"
    by (simp_all add: digit_val_def)
  note t1 = dateKey_normalizes [of "''2025-01-05''", THEN conjunct1, rule_format, OF m(1)]
  note t2 = dateKey_normalizes [of "''06/01/2025''", THEN conjunct2, THEN conjunct1,
      rule_format, OF m(2)]
  note t3 = dateKey_normalizes [of "''5 Jan 2025''", THEN conjunct2, THEN conjunct2,
      THEN conjunct1, rule_format, OF conjI [OF m(3) m(4)]]
  note c = dateKey_normalizes [THEN conjunct2, THEN conjunct2, THEN conjunct2,
      THEN conjunct2, THEN conjunct2, THEN conjunct1, rule_format]
  note t4 = c [OF conjI [OF df(2) df(1)], of Au Iso, unfolded v]
  note t5 = c [OF conjI [OF df(1) df(2)], of Iso Au, unfolded v]
  from t1 have r1: "dateKey ''2025-01-05'' = ''20250105''" by simp
  from t2 have r2: "dateKey ''06/01/2025'' = ''20250106''" by simp
  from t3 have r3: "dateKey ''5 Jan 2025'' = ''52025''" by (simp add: is_digit_def)
  from t4 have r4: "dateKey (show_date Au ''2024'' ''12'' ''31'')
      < dateKey (show_date Iso ''2025'' ''01'' ''05'')" by simp
  from t5 have r5: "\<not> dateKey (show_date Iso ''2025'' ''01'' ''05'')
      < dateKey (show_date Au ''2024'' ''12'' ''31'')" by simp
  from r1 r2 r3 df r4 r5 show ?thesis by blast
qed

end
